theory Spec2Isabelle
  imports Main "HOL-Library.List_Lexorder"
begin

section \<open>Strings of the script\<close>

text \<open>
  The script \<^verbatim>\<open>scripts/fetch_taxonomy_subset.py\<close> works on Python \<^verbatim>\<open>str\<close> values:
  sequences of Unicode code points. A code point is a natural number and a string is a
  list of them; the order on strings is the lexicographic order of
  \<^verbatim>\<open>HOL-Library.List_Lexorder\<close>, which is how Python compares two \<^verbatim>\<open>str\<close>.
  A literal of the source is written \<open>str_of ''...''\<close>.
\<close>

type_synonym pystr = "nat list"

definition str_of :: "string \<Rightarrow> pystr" where
  "str_of s = map of_char s"

text \<open>The line separator \<^verbatim>\<open>'\n'\<close>.\<close>

definition NL :: nat where
  "NL = 10"

text \<open>
  \<^verbatim>\<open>str.strip()\<close> without argument removes leading and trailing whitespace, where
  whitespace is what \<^verbatim>\<open>str.isspace\<close> accepts: U+0009..U+000D, U+001C..U+001F, U+0020,
  U+0085, U+00A0, U+1680, U+2000..U+200A, U+2028, U+2029, U+202F, U+205F, U+3000.
\<close>

definition isspace :: "nat \<Rightarrow> bool" where
  "isspace c =
     ((9 \<le> c \<and> c \<le> 13) \<or> (28 \<le> c \<and> c \<le> 32) \<or> c = 133 \<or> c = 160 \<or> c = 5760
      \<or> (8192 \<le> c \<and> c \<le> 8202) \<or> c = 8232 \<or> c = 8233 \<or> c = 8239 \<or> c = 8287
      \<or> c = 12288)"

definition strip :: "pystr \<Rightarrow> pystr" where
  "strip s = rev (dropWhile isspace (rev (dropWhile isspace s)))"

text \<open>\<^verbatim>\<open>s.split('\n')\<close>: the pieces between the separators; never an empty list.\<close>

fun split_nl :: "pystr \<Rightarrow> pystr list" where
  "split_nl [] = [[]]"
| "split_nl (c # cs) =
     (if c = NL then [] # split_nl cs
      else (case split_nl cs of [] \<Rightarrow> [[c]] | l # ls \<Rightarrow> (c # l) # ls))"

text \<open>\<^verbatim>\<open>s.startswith(p)\<close>.\<close>

definition startswith :: "pystr \<Rightarrow> pystr \<Rightarrow> bool" where
  "startswith s p = (take (length p) s = p)"

section \<open>The patterns and \<^verbatim>\<open>re.match\<close>\<close>

text \<open>
  The eleven patterns of \<^verbatim>\<open>target_patterns\<close>, in the order of the source. Each is built
  from the anchor \<^verbatim>\<open>^\<close> and literal characters (letters, the blank and \<^verbatim>\<open>>\<close>) only,
  so the fragment of regular expressions modelled here is: an item is the anchor or a
  literal character.
\<close>

definition target_patterns :: "pystr list" where
  "target_patterns =
     [str_of ''^Electronics'',
      str_of ''^Electronics > Audio'',
      str_of ''^Electronics > Cameras'',
      str_of ''^Electronics > Communications'',
      str_of ''^Electronics > Computers'',
      str_of ''^Electronics > Gaming'',
      str_of ''^Electronics > Home Audio'',
      str_of ''^Electronics > Mobile Phones'',
      str_of ''^Electronics > Tablets'',
      str_of ''^Electronics > Video'',
      str_of ''^Electronics > Wearables'']"

datatype re_item = Bol | Lit nat

text \<open>The characters that are special in a Python pattern.\<close>

definition re_special :: "nat \<Rightarrow> bool" where
  "re_special c = (c \<in> set (str_of ''.^$*+?{}[]|()'') \<or> c = 92)"

definition re_compile :: "pystr \<Rightarrow> re_item list" where
  "re_compile p = map (\<lambda>c. if c = of_char CHR ''^'' then Bol else Lit c) p"

text \<open>
  Matching the items at position \<open>pos\<close> of the subject, \<open>s\<close> being what is left of the
  subject from there. Without the MULTILINE flag the anchor matches at position 0 only;
  a literal consumes one equal character. A match need not reach the end of the subject.
\<close>

fun match_here :: "re_item list \<Rightarrow> nat \<Rightarrow> pystr \<Rightarrow> bool" where
  "match_here [] pos s = True"
| "match_here (Bol # r) pos s = (pos = 0 \<and> match_here r pos s)"
| "match_here (Lit c # r) pos [] = False"
| "match_here (Lit c # r) pos (d # s) = (c = d \<and> match_here r (Suc pos) s)"

text \<open>\<^verbatim>\<open>re.match(pattern, line)\<close> tries a match at the start of the line only.\<close>

definition re_match :: "pystr \<Rightarrow> pystr \<Rightarrow> bool" where
  "re_match pattern line = match_here (re_compile pattern) 0 line"

section \<open>\<^verbatim>\<open>extract_electronics_categories\<close>\<close>

text \<open>
  The inner loop over the patterns: the line is appended at the first pattern that
  matches and the loop is left (\<^verbatim>\<open>break\<close>).
\<close>

fun try_patterns :: "pystr list \<Rightarrow> pystr \<Rightarrow> pystr list \<Rightarrow> pystr list" where
  "try_patterns [] line acc = acc"
| "try_patterns (pattern # ps) line acc =
     (if re_match pattern line then acc @ [line] else try_patterns ps line acc)"

text \<open>The loop over the lines; \<open>acc\<close> is \<^verbatim>\<open>electronics_categories\<close>.\<close>

fun filter_loop :: "pystr list \<Rightarrow> pystr list \<Rightarrow> pystr list" where
  "filter_loop [] acc = acc"
| "filter_loop (l # ls) acc =
     (let line = strip l in
      if line \<noteq> [] \<and> \<not> startswith line (str_of ''#'')
      then filter_loop ls (try_patterns target_patterns line acc)
      else filter_loop ls acc)"

text \<open>Lines 32 to 56: the filtered sequence of a fetched text.\<close>

definition filtered :: "pystr \<Rightarrow> pystr list" where
  "filtered content = filter_loop (split_nl (strip content)) []"

definition additional_categories :: "pystr list" where
  "additional_categories =
     [str_of ''Electronics > Audio > Headphones'',
      str_of ''Electronics > Audio > Speakers'',
      str_of ''Electronics > Cameras > Digital Cameras'',
      str_of ''Electronics > Communications > Telephony > Mobile Phone Accessories'',
      str_of ''Electronics > Communications > Telephony > Mobile Phones'',
      str_of ''Electronics > Computers > Desktop Computers'',
      str_of ''Electronics > Computers > Laptops'',
      str_of ''Electronics > Computers > Tablets'',
      str_of ''Electronics > Gaming > Video Game Consoles'',
      str_of ''Electronics > Home Audio > Home Theater Systems'',
      str_of ''Electronics > Mobile Phones > Smartphones'',
      str_of ''Electronics > Video > Televisions'',
      str_of ''Electronics > Wearables > Smartwatches'',
      str_of ''Electronics > Wearables > Fitness Trackers'']"

text \<open>The loop of lines 78 to 80.\<close>

fun pad_loop :: "pystr list \<Rightarrow> pystr list \<Rightarrow> pystr list" where
  "pad_loop [] acc = acc"
| "pad_loop (category # cs) acc =
     (if category \<notin> set acc then pad_loop cs (acc @ [category]) else pad_loop cs acc)"

text \<open>Lines 58 to 80: the combined sequence, before sorting and truncation.\<close>

definition padded :: "pystr list \<Rightarrow> pystr list" where
  "padded electronics_categories =
     (if length electronics_categories < 15
      then pad_loop additional_categories electronics_categories
      else electronics_categories)"

text \<open>
  The whole function. \<^verbatim>\<open>not content\<close> holds of \<^verbatim>\<open>None\<close> and of the empty string.
  \<^verbatim>\<open>list.sort()\<close> orders the strings by code points and \<^verbatim>\<open>[:20]\<close> keeps the first 20.
\<close>

definition extract_electronics_categories :: "pystr option \<Rightarrow> pystr list" where
  "extract_electronics_categories content =
     (case content of
        None \<Rightarrow> []
      | Some text \<Rightarrow>
          if text = [] then []
          else take 20 (sort (padded (filtered text))))"

section \<open>\<^verbatim>\<open>main\<close> and its environment\<close>

text \<open>
  What a run meets outside the program: the outcome of the HTTP GET (\<open>None\<close> when
  \<^verbatim>\<open>urlopen\<close>, \<^verbatim>\<open>read\<close> or \<^verbatim>\<open>decode\<close> raises, the decoded body otherwise), whether
  opening and writing the output file goes through, and the time of the run, which the
  script never reads.
\<close>

record env =
  response :: "pystr option"
  write_ok :: bool
  clock :: nat

text \<open>The lines printed to standard output, without their wording.\<close>

datatype message =
    Fetching
  | ErrorFetching
  | FailedToFetch
  | FetchedOk
  | Found nat
  | WrittenTo
  | Total nat
  | Included
  | Item nat pystr
  | ErrorWriting

record subset_data =
  source :: pystr
  count :: int
  categories :: "pystr list"
  description :: pystr
  lastUpdated :: pystr

text \<open>
  The output file after the run: not touched, holding the dump of a record, or left in
  the state in which a failed \<^verbatim>\<open>open\<close> or \<^verbatim>\<open>json.dump\<close> left it.
\<close>

datatype file_state = Untouched | Written subset_data | WriteFailed

record outcome =
  stdout :: "message list"
  output_file :: file_state

definition fetch_taxonomy :: "env \<Rightarrow> pystr option \<times> message list" where
  "fetch_taxonomy e =
     (case response e of
        Some content \<Rightarrow> (Some content, [])
      | None \<Rightarrow> (None, [ErrorFetching]))"

definition make_subset_data :: "pystr list \<Rightarrow> subset_data" where
  "make_subset_data cats =
     \<lparr>source = str_of ''https://www.google.com/basepages/producttype/taxonomy-with-ids.en-US.txt'',
      count = int (length cats),
      categories = cats,
      description = str_of ''Curated subset of Google Product Taxonomy for electronics recommerce'',
      lastUpdated = str_of ''2024-01-15''\<rparr>"

text \<open>\<^verbatim>\<open>enumerate(categories, 1)\<close> with one printed line for each pair.\<close>

definition print_items :: "pystr list \<Rightarrow> message list" where
  "print_items cats = map (\<lambda>(i, c). Item i c) (zip [1 ..< Suc (length cats)] cats)"

definition main :: "env \<Rightarrow> outcome" where
  "main e =
     (case fetch_taxonomy e of (content, printed) \<Rightarrow>
        if content = None \<or> content = Some []
        then \<lparr>stdout = [Fetching] @ printed @ [FailedToFetch], output_file = Untouched\<rparr>
        else
          let cats = extract_electronics_categories content;
              data = make_subset_data cats;
              out = [Fetching] @ printed @ [FetchedOk, Found (length cats)]
          in if write_ok e
             then \<lparr>stdout = out @ [WrittenTo, Total (length cats), Included] @ print_items cats,
                   output_file = Written data\<rparr>
             else \<lparr>stdout = out @ [ErrorWriting], output_file = WriteFailed\<rparr>)"

section \<open>\<^verbatim>\<open>json.dump\<close> of the record\<close>

text \<open>
  The text that \<^verbatim>\<open>json.dump(subset_data, f, indent=2, ensure_ascii=False)\<close> writes.
  Inside a string the quote, the backslash and the characters below U+0020 are escaped
  and nothing else is; an integer is written in decimal; with an indentation the items
  of an object or array are separated by a comma and a line break.
\<close>

definition hex_digit :: "nat \<Rightarrow> nat" where
  "hex_digit d = (if d < 10 then 48 + d else 87 + d)"

definition json_escape :: "nat \<Rightarrow> pystr" where
  "json_escape c =
     (if c = 34 then [92, 34]
      else if c = 92 then [92, 92]
      else if c = 8 then [92, 98]
      else if c = 12 then [92, 102]
      else if c = 10 then [92, 110]
      else if c = 13 then [92, 114]
      else if c = 9 then [92, 116]
      else if c < 32 then [92, 117, 48, 48, hex_digit (c div 16), hex_digit (c mod 16)]
      else [c])"

definition json_string :: "pystr \<Rightarrow> pystr" where
  "json_string s = [34] @ concat (map json_escape s) @ [34]"

fun decimal :: "nat \<Rightarrow> pystr" where
  "decimal n = (if n < 10 then [48 + n] else decimal (n div 10) @ [48 + n mod 10])"

definition json_int :: "int \<Rightarrow> pystr" where
  "json_int i = (if i < 0 then 45 # decimal (nat (- i)) else decimal (nat i))"

fun join :: "pystr \<Rightarrow> pystr list \<Rightarrow> pystr" where
  "join sep [] = []"
| "join sep [x] = x"
| "join sep (x # y # ys) = x @ sep @ join sep (y # ys)"

definition json_array :: "pystr list \<Rightarrow> pystr" where
  "json_array xs =
     (if xs = [] then str_of ''[]''
      else str_of ''['' @ [NL] @ str_of ''    ''
           @ join (str_of '','' @ [NL] @ str_of ''    '') (map json_string xs)
           @ [NL] @ str_of ''  ]'')"

definition json_dump :: "subset_data \<Rightarrow> pystr" where
  "json_dump d =
     str_of ''{'' @ [NL] @ str_of ''  ''
     @ join (str_of '','' @ [NL] @ str_of ''  '')
         [json_string (str_of ''source'') @ str_of '': '' @ json_string (source d),
          json_string (str_of ''count'') @ str_of '': '' @ json_int (count d),
          json_string (str_of ''categories'') @ str_of '': '' @ json_array (categories d),
          json_string (str_of ''description'') @ str_of '': '' @ json_string (description d),
          json_string (str_of ''lastUpdated'') @ str_of '': '' @ json_string (lastUpdated d)]
     @ [NL] @ str_of ''}''"

text \<open>The text in the output file when this run has written it completely.\<close>

definition file_text :: "file_state \<Rightarrow> pystr option" where
  "file_text f = (case f of Written d \<Rightarrow> Some (json_dump d) | _ \<Rightarrow> None)"

section \<open>A test input\<close>

text \<open>
  The fetched text of the scenario that claim C5 is about: two lines under
  \<^verbatim>\<open>Electronics\<close>, one other category and a comment, each ended by a line break.
\<close>

definition scenario_text :: pystr where
  "scenario_text =
     str_of ''Electronics > Audio'' @ [NL] @ str_of ''Electronics > Audio > Headphones''
     @ [NL] @ str_of ''RandomCategory'' @ [NL] @ str_of ''# comment'' @ [NL]"

section \<open>Facts about the string operations\<close>

lemma str_of_Cons: "str_of (c # s) = of_char c # str_of s"
  by (simp add: str_of_def)

lemma startswith_append: "startswith s (p @ q) \<Longrightarrow> startswith s p"
  unfolding startswith_def
  by (metis append_eq_conv_conj append_take_drop_id append.assoc)

lemma match_here_lits: "match_here (map Lit p) pos s = (take (length p) s = p)"
proof (induction p arbitrary: pos s)
  case Nil
  then show ?case by simp
next
  case (Cons c p)
  show ?case
  proof (cases s)
    case Nil
    then show ?thesis by simp
  next
    case (Cons d s')
    then show ?thesis using Cons.IH [of "Suc pos" s'] by auto
  qed
qed

lemma re_compile_lits: "94 \<notin> set p \<Longrightarrow> re_compile p = map Lit p"
  by (induction p) (auto simp: re_compile_def)

text \<open>A pattern made of the anchor and literals is a test of a prefix.\<close>

lemma re_match_anchor:
  assumes "94 \<notin> set p"
  shows "re_match (94 # p) line = startswith line p"
proof -
  have "re_compile (94 # p) = Bol # map Lit p"
    using re_compile_lits [OF assms] by (simp add: re_compile_def)
  then show ?thesis
    by (simp add: re_match_def startswith_def match_here_lits)
qed

lemma distinct_additional: "distinct additional_categories"
  by (simp add: additional_categories_def str_of_def)

lemma length_additional: "length additional_categories = 14"
  by (simp add: additional_categories_def)

text \<open>The first pattern alone decides: every other pattern extends it.\<close>

lemma pat_first: "re_match (str_of ''^Electronics'') line = startswith line (str_of ''Electronics'')"
  by (simp add: str_of_def re_match_anchor)

lemma pat_tail:
  "94 \<notin> set (str_of q) \<Longrightarrow> re_match (str_of (CHR ''^'' # ''Electronics'' @ q)) line \<Longrightarrow> startswith line (str_of ''Electronics'')"
proof -
  assume a: "94 \<notin> set (str_of q)" and m: "re_match (str_of (CHR ''^'' # ''Electronics'' @ q)) line"
  have e: "str_of (CHR ''^'' # ''Electronics'' @ q) = 94 # (str_of ''Electronics'' @ str_of q)"
    by (simp add: str_of_def)
  have "94 \<notin> set (str_of ''Electronics'' @ str_of q)"
    using a by (simp add: str_of_def)
  then have "startswith line (str_of ''Electronics'' @ str_of q)"
    using m re_match_anchor [of "str_of ''Electronics'' @ str_of q" line] unfolding e by blast
  then show ?thesis by (rule startswith_append)
qed

lemma try_patterns_target:
  "try_patterns target_patterns line acc =
     (if startswith line (str_of ''Electronics'') then acc @ [line] else acc)"
proof (cases "startswith line (str_of ''Electronics'')")
  case True
  then show ?thesis by (simp add: target_patterns_def pat_first)
next
  case False
  have n: "\<not> re_match (str_of (CHR ''^'' # ''Electronics'' @ q)) line" if "94 \<notin> set (str_of q)" for q
    using pat_tail [OF that] False by blast
  have "\<not> re_match p line" if "p \<in> set target_patterns" for p
    using that n [of "''''"] n [of "'' > Audio''"] n [of "'' > Cameras''"]
      n [of "'' > Communications''"] n [of "'' > Computers''"] n [of "'' > Gaming''"]
      n [of "'' > Home Audio''"] n [of "'' > Mobile Phones''"] n [of "'' > Tablets''"]
      n [of "'' > Video''"] n [of "'' > Wearables''"]
    by (auto simp: target_patterns_def str_of_def)
  moreover have "(\<forall>p \<in> set ps. \<not> re_match p line) \<Longrightarrow> try_patterns ps line acc = acc" for ps
    by (induction ps) auto
  ultimately show ?thesis using False by simp
qed

text \<open>The two loops in closed form, and what sorting and truncation give.\<close>

lemma startswith_Electronics_kept:
  assumes "startswith l (str_of ''Electronics'')"
  shows "l \<noteq> [] \<and> \<not> startswith l (str_of ''#'')"
proof (cases l)
  case Nil
  then show ?thesis using assms by (simp add: startswith_def str_of_def)
next
  case (Cons c cs)
  then have "c = 69" using assms by (simp add: startswith_def str_of_def)
  then show ?thesis using Cons by (simp add: startswith_def str_of_def)
qed

lemma filter_loop_eq:
  "filter_loop ls acc = acc @ [l \<leftarrow> map strip ls. startswith l (str_of ''Electronics'')]"
proof (induction ls arbitrary: acc)
  case Nil
  then show ?case by simp
next
  case (Cons l ls)
  show ?case
  proof (cases "startswith (strip l) (str_of ''Electronics'')")
    case True
    then show ?thesis
      using startswith_Electronics_kept [OF True] Cons.IH
      by (simp add: try_patterns_target Let_def)
  next
    case False
    then show ?thesis using Cons.IH
      by (simp add: try_patterns_target Let_def)
  qed
qed

lemma pad_loop_eq:
  "distinct cs \<Longrightarrow> pad_loop cs acc = acc @ [c \<leftarrow> cs. c \<notin> set acc]"
proof (induction cs arbitrary: acc)
  case Nil
  then show ?case by simp
next
  case (Cons c cs)
  then have d: "distinct cs" and n: "c \<notin> set cs" by simp_all
  show ?case
  proof (cases "c \<in> set acc")
    case True
    then show ?thesis using Cons.IH [OF d] by simp
  next
    case False
    have "[x \<leftarrow> cs. x \<notin> set (acc @ [c])] = [x \<leftarrow> cs. x \<notin> set acc]"
      using n by (intro filter_cong) auto
    then show ?thesis using False Cons.IH [OF d, of "acc @ [c]"] by simp
  qed
qed

lemma padded_short:
  "length f < 15 \<Longrightarrow> padded f = f @ [c \<leftarrow> additional_categories. c \<notin> set f]"
  by (simp add: padded_def pad_loop_eq distinct_additional)

lemma length_extract: "length (extract_electronics_categories c) \<le> 20"
  by (simp add: extract_electronics_categories_def split: option.split)

lemma sorted_extract: "sorted (extract_electronics_categories c)"
  by (simp add: extract_electronics_categories_def split: option.split)

section \<open>The runs of \<^verbatim>\<open>main\<close>\<close>

lemma main_fetch_error:
  "response e = None \<Longrightarrow>
   main e = \<lparr>stdout = [Fetching, ErrorFetching, FailedToFetch], output_file = Untouched\<rparr>"
  by (simp add: main_def fetch_taxonomy_def)

lemma main_empty_body:
  "response e = Some [] \<Longrightarrow>
   main e = \<lparr>stdout = [Fetching, FailedToFetch], output_file = Untouched\<rparr>"
  by (simp add: main_def fetch_taxonomy_def)

lemma main_written:
  assumes "response e = Some t" and "t \<noteq> []" and "write_ok e"
  shows "output_file (main e) = Written (make_subset_data (extract_electronics_categories (Some t)))"
  using assms by (simp add: main_def fetch_taxonomy_def Let_def)

lemma main_write_error:
  assumes "response e = Some t" and "t \<noteq> []" and "\<not> write_ok e"
  shows "output_file (main e) = WriteFailed"
  using assms by (simp add: main_def fetch_taxonomy_def Let_def)

lemma written_cases:
  assumes "output_file (main e) = Written d"
  obtains t where "response e = Some t" and "t \<noteq> []" and "write_ok e"
    and "d = make_subset_data (extract_electronics_categories (Some t))"
proof (cases "response e")
  case None
  then show ?thesis using assms main_fetch_error [OF None] by simp
next
  case (Some t)
  show ?thesis
  proof (cases "t = []")
    case True
    then show ?thesis using assms Some main_empty_body [of e] by simp
  next
    case False
    show ?thesis
    proof (cases "write_ok e")
      case True
      then show ?thesis using that [OF Some False True] main_written [OF Some False True] assms by simp
    next
      case w: False
      then show ?thesis using main_write_error [OF Some False w] assms by simp
    qed
  qed
qed

lemma str_Electronics_nonempty: "str_of ''Electronics'' \<noteq> []"
  by (simp add: str_of_def)

lemma extract_Some:
  "t \<noteq> [] \<Longrightarrow> extract_electronics_categories (Some t) = take 20 (sort (padded (filtered t)))"
  by (simp add: extract_electronics_categories_def)

lemma strip_Electronics: "strip (str_of ''Electronics'') = str_of ''Electronics''"
  by (simp add: strip_def str_of_def isspace_def)

lemma split_Electronics: "split_nl (str_of ''Electronics'') = [str_of ''Electronics'']"
  by (simp add: str_of_def NL_def)

lemma filtered_Electronics: "filtered (str_of ''Electronics'') = [str_of ''Electronics'']"
  by (simp add: filtered_def filter_loop_eq strip_Electronics split_Electronics startswith_def)

lemma filtered_Nil: "filtered [] = []"
  by (simp add: filtered_def filter_loop_eq strip_def startswith_def str_of_def)

text \<open>Texts made of lines: splitting and stripping them.\<close>

lemma split_nl_not_Nil: "split_nl s \<noteq> []"
  by (induction s) (auto split: list.splits)

lemma split_nl_line: "NL \<notin> set l \<Longrightarrow> split_nl (l @ NL # r) = l # split_nl r"
  by (induction l) (auto split: list.splits)

lemma split_nl_last: "NL \<notin> set l \<Longrightarrow> split_nl l = [l]"
  by (induction l) (auto split: list.splits)

lemma strip_id:
  assumes "s \<noteq> []" and "\<not> isspace (hd s)" and "\<not> isspace (last s)"
  shows "strip s = s"
proof -
  have a: "dropWhile isspace s = s"
    using assms(1,2) by (cases s) simp_all
  from assms(1) obtain b x where s: "s = b @ [x]"
    by (cases s rule: rev_cases) auto
  then have "\<not> isspace x" using assms(3) by simp
  then have "dropWhile isspace (rev s) = rev s"
    by (simp add: s)
  then show ?thesis by (simp add: strip_def a)
qed

lemma join_replicate:
  "join sep (replicate (Suc (Suc n)) x) = x @ sep @ join sep (replicate (Suc n) x)"
  by simp

lemma split_nl_join_replicate:
  "NL \<notin> set x \<Longrightarrow> split_nl (join [NL] (replicate (Suc n) x)) = replicate (Suc n) x"
proof (induction n)
  case 0
  then show ?case by (simp add: split_nl_last)
next
  case (Suc n)
  then show ?case
    using split_nl_line [of x "join [NL] (replicate (Suc n) x)"] by simp
qed

lemma hd_join_replicate: "x \<noteq> [] \<Longrightarrow> hd (join sep (replicate (Suc n) x)) = hd x"
  by (cases n) simp_all

lemma last_join_replicate: "x \<noteq> [] \<Longrightarrow> last (join sep (replicate (Suc n) x)) = last x"
proof (induction n)
  case 0
  then show ?case by simp
next
  case (Suc n)
  have "join sep (replicate (Suc n) x) \<noteq> []"
    using Suc.prems by (cases n) simp_all
  then show ?case using Suc by simp
qed

lemma join_replicate_not_Nil: "x \<noteq> [] \<Longrightarrow> join sep (replicate (Suc n) x) \<noteq> []"
  by (cases n) simp_all

lemma filtered_Electronics_lines:
  "filtered (join [NL] (replicate (Suc n) (str_of ''Electronics'')))
     = replicate (Suc n) (str_of ''Electronics'')"
proof -
  let ?E = "str_of ''Electronics''"
  let ?W = "join [NL] (replicate (Suc n) ?E)"
  have ne: "?E \<noteq> []" by (rule str_Electronics_nonempty)
  have h: "\<not> isspace (hd ?E)" and l: "\<not> isspace (last ?E)"
    by (simp_all add: str_of_def isspace_def)
  have "strip ?W = ?W"
    using ne h l by (intro strip_id) (simp_all only: hd_join_replicate last_join_replicate join_replicate_not_Nil not_False_eq_True)
  moreover have "NL \<notin> set ?E" by (simp add: str_of_def NL_def)
  ultimately have "split_nl (strip ?W) = replicate (Suc n) ?E"
    using split_nl_join_replicate [of ?E n] by metis
  then show ?thesis
    by (simp add: filtered_def filter_loop_eq strip_Electronics startswith_def del: replicate.simps)
qed

lemma padded_long: "15 \<le> length f \<Longrightarrow> padded f = f"
  by (simp add: padded_def)

lemma filtered_nonempty_text: "filtered t \<noteq> [] \<Longrightarrow> t \<noteq> []"
  using filtered_Nil by auto

lemma distinct_padded:
  assumes "distinct f"
  shows "distinct (padded f)"
proof (cases "length f < 15")
  case True
  show ?thesis
    unfolding padded_short [OF True] using assms distinct_additional by auto
next
  case False
  then show ?thesis using assms by (simp add: padded_def)
qed

lemma length_padded_le: "length (padded f) \<le> max (length f) (length f + 14)"
proof (cases "length f < 15")
  case True
  have "length [c \<leftarrow> additional_categories. c \<notin> set f] \<le> 14"
    using length_filter_le [of _ additional_categories] by (simp add: length_additional)
  then show ?thesis using True by (simp add: padded_short)
next
  case False
  then show ?thesis by (simp add: padded_def)
qed

text \<open>The scenario, step by step.\<close>

lemma scenario_filtered:
  "filtered scenario_text
   = [str_of ''Electronics > Audio'', str_of ''Electronics > Audio > Headphones'']"
  by (simp add: scenario_text_def filtered_def filter_loop_eq strip_def str_of_def isspace_def
      NL_def startswith_def)

lemma scenario_missing:
  "[c \<leftarrow> additional_categories.
      c \<notin> set [str_of ''Electronics > Audio'', str_of ''Electronics > Audio > Headphones'']]
   = tl additional_categories"
  by (simp add: additional_categories_def str_of_def)

lemma scenario_padded:
  "padded (filtered scenario_text)
   = [str_of ''Electronics > Audio'', str_of ''Electronics > Audio > Headphones'']
     @ tl additional_categories"
proof -
  have "length (filtered scenario_text) < 15"
    unfolding scenario_filtered by simp
  then have "padded (filtered scenario_text)
    = filtered scenario_text @ [c \<leftarrow> additional_categories. c \<notin> set (filtered scenario_text)]"
    by (rule padded_short)
  then show ?thesis unfolding scenario_filtered scenario_missing .
qed

lemma scenario_text_nonempty: "scenario_text \<noteq> []"
  by (simp add: scenario_text_def str_of_def)

lemma try_patterns_no_match:
  "try_patterns ps line acc = (if list_ex (\<lambda>pattern. re_match pattern line) ps then acc @ [line] else acc)"
  by (induction ps) auto

text \<open>
  Every pattern of the script is the anchor followed by characters that are not special
  in a pattern: the fragment modelled by \<open>re_compile\<close> and \<open>match_here\<close> covers them.
\<close>

lemma target_patterns_fragment:
  "list_all (\<lambda>p. hd p = 94 \<and> list_all (\<lambda>c. \<not> re_special c) (tl p)) target_patterns"
  by (simp add: target_patterns_def str_of_def re_special_def)

section \<open>The claims\<close>

text \<open>
  Claim C1. Whenever a run writes the output file, the record it dumps has
  \<open>count\<close> equal to the number of entries of \<open>categories\<close>, and that list has at
  most 20 entries.
\<close>

theorem written_count_and_bound:
  assumes "output_file (main e) = Written d"
  shows "count d = int (length (categories d)) \<and> length (categories d) \<le> 20"
proof -
  from assms obtain t where "d = make_subset_data (extract_electronics_categories (Some t))"
    by (rule written_cases)
  then show ?thesis by (simp add: make_subset_data_def length_extract)
qed

theorem written_count_and_bound_witness:
  "output_file (main \<lparr>response = Some (str_of ''Electronics''), write_ok = True, clock = 0\<rparr>)
     = Written (make_subset_data (extract_electronics_categories (Some (str_of ''Electronics''))))
   \<and> count (make_subset_data (extract_electronics_categories (Some (str_of ''Electronics''))))
     = int (length (categories (make_subset_data (extract_electronics_categories (Some (str_of ''Electronics''))))))
   \<and> length (categories (make_subset_data (extract_electronics_categories (Some (str_of ''Electronics''))))) \<le> 20"
proof -
  have h: "output_file (main \<lparr>response = Some (str_of ''Electronics''), write_ok = True, clock = 0\<rparr>)
     = Written (make_subset_data (extract_electronics_categories (Some (str_of ''Electronics''))))"
    by (rule main_written) (simp_all add: str_Electronics_nonempty)
  show ?thesis using h written_count_and_bound [OF h] by blast
qed

text \<open>
  Claim C2. The categories of a written record are in non-decreasing lexicographic order
  of code points, and they are the first 20 entries of the sorted combined sequence:
  truncation comes after sorting.
\<close>

theorem written_sorted_then_truncated:
  assumes "output_file (main e) = Written d"
  shows "sorted (categories d)
    \<and> (\<exists>t. response e = Some t \<and> categories d = take 20 (sort (padded (filtered t))))"
proof -
  from assms obtain t where t: "response e = Some t" "t \<noteq> []"
    and d: "d = make_subset_data (extract_electronics_categories (Some t))"
    by (rule written_cases)
  have "categories d = extract_electronics_categories (Some t)"
    using d by (simp add: make_subset_data_def)
  then show ?thesis using t sorted_extract [of "Some t"] extract_Some [OF t(2)] by auto
qed

theorem written_sorted_then_truncated_witness:
  "output_file (main \<lparr>response = Some (str_of ''Electronics''), write_ok = True, clock = 1\<rparr>)
     = Written (make_subset_data (extract_electronics_categories (Some (str_of ''Electronics''))))
   \<and> sorted (categories (make_subset_data (extract_electronics_categories (Some (str_of ''Electronics'')))))
   \<and> (\<exists>t. response \<lparr>response = Some (str_of ''Electronics''), write_ok = True, clock = 1\<rparr> = Some t
        \<and> categories (make_subset_data (extract_electronics_categories (Some (str_of ''Electronics''))))
          = take 20 (sort (padded (filtered t))))"
proof -
  have h: "output_file (main \<lparr>response = Some (str_of ''Electronics''), write_ok = True, clock = 1\<rparr>)
     = Written (make_subset_data (extract_electronics_categories (Some (str_of ''Electronics''))))"
    by (rule main_written) (simp_all add: str_Electronics_nonempty)
  show ?thesis using h written_sorted_then_truncated [OF h] by blast
qed

text \<open>
  Claim C3. When the filtered sequence of a fetched text has fewer than 15 entries, the
  combined sequence contains every fallback entry; it is the filtered sequence followed
  by the fallback entries that the filtered sequence lacks, in their fixed order; so its
  length is at least the filtered length and at most 14 more.
\<close>

theorem fallback_appended_when_short:
  assumes "length (filtered t) < 15"
  shows "set additional_categories \<subseteq> set (padded (filtered t))
    \<and> padded (filtered t) = filtered t @ [c \<leftarrow> additional_categories. c \<notin> set (filtered t)]
    \<and> length (filtered t) \<le> length (padded (filtered t))
    \<and> length (padded (filtered t)) \<le> length (filtered t) + 14"
proof -
  have eq: "padded (filtered t) = filtered t @ [c \<leftarrow> additional_categories. c \<notin> set (filtered t)]"
    using assms by (rule padded_short)
  have "length [c \<leftarrow> additional_categories. c \<notin> set (filtered t)] \<le> 14"
    using length_filter_le [of _ additional_categories] by (simp add: length_additional)
  then show ?thesis unfolding eq by auto
qed

theorem fallback_appended_when_short_witness:
  "length (filtered (str_of ''Electronics'')) < 15
   \<and> set additional_categories \<subseteq> set (padded (filtered (str_of ''Electronics'')))
   \<and> padded (filtered (str_of ''Electronics''))
       = filtered (str_of ''Electronics'')
         @ [c \<leftarrow> additional_categories. c \<notin> set (filtered (str_of ''Electronics''))]
   \<and> length (filtered (str_of ''Electronics'')) \<le> length (padded (filtered (str_of ''Electronics'')))
   \<and> length (padded (filtered (str_of ''Electronics''))) \<le> length (filtered (str_of ''Electronics'')) + 14"
proof -
  have h: "length (filtered (str_of ''Electronics'')) < 15"
    by (simp add: filtered_Electronics)
  show ?thesis using h fallback_appended_when_short [OF h] by blast
qed

text \<open>
  Claim C4. When the filtered sequence of a fetched text has at least 15 entries, the
  padding step returns it unchanged, the fallback list playing no part, and the output
  categories are the filtered sequence sorted and cut to its first 20 entries.
\<close>

theorem no_fallback_when_enough:
  assumes "15 \<le> length (filtered t)"
  shows "padded (filtered t) = filtered t
    \<and> extract_electronics_categories (Some t) = take 20 (sort (filtered t))"
proof -
  have "filtered t \<noteq> []" using assms by auto
  then have "t \<noteq> []" by (rule filtered_nonempty_text)
  then show ?thesis using padded_long [OF assms] by (simp add: extract_Some)
qed

theorem no_fallback_when_enough_witness:
  "15 \<le> length (filtered (join [NL] (replicate (Suc 14) (str_of ''Electronics''))))
   \<and> padded (filtered (join [NL] (replicate (Suc 14) (str_of ''Electronics''))))
       = filtered (join [NL] (replicate (Suc 14) (str_of ''Electronics'')))
   \<and> extract_electronics_categories (Some (join [NL] (replicate (Suc 14) (str_of ''Electronics''))))
       = take 20 (sort (filtered (join [NL] (replicate (Suc 14) (str_of ''Electronics'')))))"
proof -
  have h: "15 \<le> length (filtered (join [NL] (replicate (Suc 14) (str_of ''Electronics''))))"
    unfolding filtered_Electronics_lines by simp
  show ?thesis using h no_fallback_when_enough [OF h] by blast
qed

text \<open>
  Claim C6, as the code has it. The script never removes a repeated line: only a
  fallback entry is left out when it is already there. So the categories of a written
  record are free of duplicates whenever the filtered sequence of the fetched text is.
\<close>

theorem no_duplicates_when_filtered_distinct:
  assumes "output_file (main e) = Written d" and "response e = Some t"
    and "distinct (filtered t)"
  shows "distinct (categories d)"
proof -
  from assms(1) obtain t' where t': "response e = Some t'" "t' \<noteq> []"
    and d: "d = make_subset_data (extract_electronics_categories (Some t'))"
    by (rule written_cases)
  have "t' = t" using t'(1) assms(2) by simp
  then have "categories d = take 20 (sort (padded (filtered t)))"
    using d t'(2) by (simp add: make_subset_data_def extract_Some)
  then show ?thesis using distinct_padded [OF assms(3)] by simp
qed

theorem no_duplicates_when_filtered_distinct_witness:
  "output_file (main \<lparr>response = Some (str_of ''Electronics''), write_ok = True, clock = 2\<rparr>)
     = Written (make_subset_data (extract_electronics_categories (Some (str_of ''Electronics''))))
   \<and> response \<lparr>response = Some (str_of ''Electronics''), write_ok = True, clock = 2\<rparr>
     = Some (str_of ''Electronics'')
   \<and> distinct (filtered (str_of ''Electronics''))
   \<and> distinct (categories (make_subset_data (extract_electronics_categories (Some (str_of ''Electronics'')))))"
proof -
  have h: "output_file (main \<lparr>response = Some (str_of ''Electronics''), write_ok = True, clock = 2\<rparr>)
     = Written (make_subset_data (extract_electronics_categories (Some (str_of ''Electronics''))))"
    by (rule main_written) (simp_all add: str_Electronics_nonempty)
  have r: "response \<lparr>response = Some (str_of ''Electronics''), write_ok = True, clock = 2\<rparr>
     = Some (str_of ''Electronics'')"
    by simp
  have f: "distinct (filtered (str_of ''Electronics''))"
    by (simp add: filtered_Electronics)
  show ?thesis using h r f no_duplicates_when_filtered_distinct [OF h r f] by blast
qed

text \<open>
  Claim C6 as stated fails: a text with the line \<^verbatim>\<open>Electronics\<close> twice gives a
  written record whose categories hold that string twice.
\<close>

theorem duplicate_lines_survive:
  "output_file (main \<lparr>response = Some (str_of ''Electronics'' @ [NL] @ str_of ''Electronics''),
                       write_ok = True, clock = 0\<rparr>)
     = Written (make_subset_data (extract_electronics_categories
         (Some (str_of ''Electronics'' @ [NL] @ str_of ''Electronics''))))
   \<and> \<not> distinct (categories (make_subset_data (extract_electronics_categories
         (Some (str_of ''Electronics'' @ [NL] @ str_of ''Electronics'')))))"
proof -
  let ?E = "str_of ''Electronics''"
  let ?W = "?E @ [NL] @ ?E"
  have w: "?W = join [NL] (replicate (Suc (Suc 0)) ?E)" by simp
  have ne: "?W \<noteq> []" by (simp add: str_Electronics_nonempty)
  have f: "filtered ?W = [?E, ?E]"
    unfolding w filtered_Electronics_lines by simp
  have "length (filtered ?W) < 15"
    unfolding f by simp
  then have "padded (filtered ?W) = filtered ?W @ [c \<leftarrow> additional_categories. c \<notin> set (filtered ?W)]"
    by (rule padded_short)
  then have p: "padded (filtered ?W) = [?E, ?E] @ [c \<leftarrow> additional_categories. c \<notin> set [?E, ?E]]"
    unfolding f .
  have "length (padded (filtered ?W)) \<le> 20"
    using length_padded_le [of "filtered ?W"] unfolding f by simp
  then have "extract_electronics_categories (Some ?W) = sort (padded (filtered ?W))"
    using ne by (simp add: extract_Some)
  moreover have "\<not> distinct (padded (filtered ?W))"
    unfolding p by simp
  ultimately have "\<not> distinct (extract_electronics_categories (Some ?W))"
    by simp
  moreover have "output_file (main \<lparr>response = Some ?W, write_ok = True, clock = 0\<rparr>)
     = Written (make_subset_data (extract_electronics_categories (Some ?W)))"
    by (rule main_written) (simp_all add: str_Electronics_nonempty)
  ultimately show ?thesis by (simp add: make_subset_data_def)
qed

text \<open>
  Claim C5, as the code has it. On the scenario text the filtered sequence is
  \<^verbatim>\<open>Electronics > Audio\<close> and \<^verbatim>\<open>Electronics > Audio > Headphones\<close>. It is
  shorter than 15, so the fallback list is gone through: its first entry is skipped,
  being in the filtered sequence already, and the other 13 are appended. The written
  record has 15 categories, which is at most 20, and its count is 15.
\<close>

theorem scenario_result:
  "filtered scenario_text
     = [str_of ''Electronics > Audio'', str_of ''Electronics > Audio > Headphones'']
   \<and> padded (filtered scenario_text) = filtered scenario_text @ tl additional_categories
   \<and> length (tl additional_categories) = 13
   \<and> output_file (main \<lparr>response = Some scenario_text, write_ok = True, clock = 0\<rparr>)
       = Written (make_subset_data (extract_electronics_categories (Some scenario_text)))
   \<and> length (extract_electronics_categories (Some scenario_text)) = 15
   \<and> count (make_subset_data (extract_electronics_categories (Some scenario_text))) = 15"
proof -
  have p: "padded (filtered scenario_text) = filtered scenario_text @ tl additional_categories"
    using scenario_padded by (simp only: scenario_filtered)
  have l: "length (padded (filtered scenario_text)) = 15"
    unfolding scenario_padded by (simp add: length_additional)
  have e: "length (extract_electronics_categories (Some scenario_text)) = 15"
    by (simp add: extract_Some scenario_text_nonempty l)
  have m: "output_file (main \<lparr>response = Some scenario_text, write_ok = True, clock = 0\<rparr>)
       = Written (make_subset_data (extract_electronics_categories (Some scenario_text)))"
    by (rule main_written) (simp_all add: scenario_text_nonempty)
  show ?thesis
    using scenario_filtered p e m by (simp add: make_subset_data_def length_additional)
qed

text \<open>
  Claim C5 as stated fails: not all 14 fallback entries are appended on the scenario
  text. The first fallback entry is one of the two filtered lines, so the combined
  sequence is not the filtered sequence followed by the whole fallback list, and its
  length is not the filtered length plus 14.
\<close>

theorem scenario_one_fallback_skipped:
  "filtered scenario_text
     = [str_of ''Electronics > Audio'', str_of ''Electronics > Audio > Headphones'']
   \<and> hd additional_categories \<in> set (filtered scenario_text)
   \<and> padded (filtered scenario_text) \<noteq> filtered scenario_text @ additional_categories
   \<and> length (padded (filtered scenario_text)) \<noteq> length (filtered scenario_text) + 14"
proof -
  have "length (padded (filtered scenario_text)) = 15"
    unfolding scenario_padded by (simp add: length_additional)
  moreover have "length (filtered scenario_text @ additional_categories) = 16"
    unfolding scenario_filtered by (simp add: length_additional)
  moreover have "hd additional_categories \<in> set (filtered scenario_text)"
    unfolding scenario_filtered by (simp add: additional_categories_def)
  ultimately show ?thesis using scenario_filtered by auto
qed

text \<open>
  Claim C7, as the code has it. When the fetch raises, the run ends after reporting the
  failure: the output file is not touched and no count of categories is ever printed,
  the categories not being computed. When the fetch gives a non-empty text and the
  write goes through, the run writes the output file once, with the dump of the record
  built from that text. The guard \<^verbatim>\<open>if not content\<close> of \<^verbatim>\<open>main\<close> stops the run
  on an empty text as well.
\<close>

theorem fetch_error_writes_nothing:
  "(response e = None \<longrightarrow>
      main e = \<lparr>stdout = [Fetching, ErrorFetching, FailedToFetch], output_file = Untouched\<rparr>)
   \<and> (\<forall>t. response e = Some t \<and> t \<noteq> [] \<and> write_ok e \<longrightarrow>
        main e =
          \<lparr>stdout = [Fetching, FetchedOk, Found (length (extract_electronics_categories (Some t))),
                     WrittenTo, Total (length (extract_electronics_categories (Some t))), Included]
                    @ print_items (extract_electronics_categories (Some t)),
           output_file = Written (make_subset_data (extract_electronics_categories (Some t)))\<rparr>)"
  by (auto simp: main_def fetch_taxonomy_def Let_def)

theorem fetch_error_writes_nothing_witness:
  "response \<lparr>response = None, write_ok = True, clock = 0\<rparr> = None
   \<and> main \<lparr>response = None, write_ok = True, clock = 0\<rparr>
       = \<lparr>stdout = [Fetching, ErrorFetching, FailedToFetch], output_file = Untouched\<rparr>
   \<and> response \<lparr>response = Some (str_of ''Electronics''), write_ok = True, clock = 0\<rparr>
       = Some (str_of ''Electronics'')
   \<and> str_of ''Electronics'' \<noteq> []
   \<and> write_ok \<lparr>response = Some (str_of ''Electronics''), write_ok = True, clock = 0\<rparr>
   \<and> output_file (main \<lparr>response = Some (str_of ''Electronics''), write_ok = True, clock = 0\<rparr>)
       = Written (make_subset_data (extract_electronics_categories (Some (str_of ''Electronics''))))"
proof -
  have a: "response \<lparr>response = None, write_ok = True, clock = 0\<rparr> = None" by simp
  have b: "response \<lparr>response = Some (str_of ''Electronics''), write_ok = True, clock = 0\<rparr>
       = Some (str_of ''Electronics'')
     \<and> str_of ''Electronics'' \<noteq> []
     \<and> write_ok \<lparr>response = Some (str_of ''Electronics''), write_ok = True, clock = 0\<rparr>"
    by (simp add: str_Electronics_nonempty)
  have "main \<lparr>response = None, write_ok = True, clock = 0\<rparr>
       = \<lparr>stdout = [Fetching, ErrorFetching, FailedToFetch], output_file = Untouched\<rparr>"
    using fetch_error_writes_nothing [of "\<lparr>response = None, write_ok = True, clock = 0\<rparr>"] a
    by blast
  moreover have "output_file (main \<lparr>response = Some (str_of ''Electronics''), write_ok = True, clock = 0\<rparr>)
       = Written (make_subset_data (extract_electronics_categories (Some (str_of ''Electronics''))))"
    using fetch_error_writes_nothing
      [of "\<lparr>response = Some (str_of ''Electronics''), write_ok = True, clock = 0\<rparr>"] b
    by (metis outcome.select_convs(2))
  ultimately show ?thesis using a b by blast
qed

text \<open>
  Claim C7 as stated fails in its last part: a run in which no step raises need not
  write the output file. With an empty body fetched and a write that would go through,
  \<^verbatim>\<open>main\<close> reports a failed fetch and leaves the file untouched.
\<close>

theorem no_file_without_any_error:
  "response \<lparr>response = Some [], write_ok = True, clock = 0\<rparr> = Some []
   \<and> write_ok \<lparr>response = Some [], write_ok = True, clock = 0\<rparr>
   \<and> fetch_taxonomy \<lparr>response = Some [], write_ok = True, clock = 0\<rparr> = (Some [], [])
   \<and> main \<lparr>response = Some [], write_ok = True, clock = 0\<rparr>
       = \<lparr>stdout = [Fetching, FailedToFetch], output_file = Untouched\<rparr>
   \<and> output_file (main \<lparr>response = Some [], write_ok = True, clock = 0\<rparr>)
       \<noteq> Written (make_subset_data (extract_electronics_categories (Some [])))"
proof -
  have "main \<lparr>response = Some [], write_ok = True, clock = 0\<rparr>
       = \<lparr>stdout = [Fetching, FailedToFetch], output_file = Untouched\<rparr>"
    by (rule main_empty_body) simp
  then show ?thesis by (simp add: fetch_taxonomy_def)
qed

text \<open>
  Claim C8. Two runs that fetch the same text and both write the output file write the
  same record and so the same JSON text, whatever else differs between the runs (the
  time of the run is part of the environment and is never read). The fields
  \<open>lastUpdated\<close>, \<open>source\<close> and \<open>description\<close> are fixed literals.
\<close>

theorem output_determined_by_fetched_text:
  assumes "response e1 = response e2"
    and "output_file (main e1) = Written d1" and "output_file (main e2) = Written d2"
  shows "d1 = d2
    \<and> file_text (output_file (main e1)) = file_text (output_file (main e2))
    \<and> file_text (output_file (main e1)) = Some (json_dump d1)
    \<and> lastUpdated d1 = str_of ''2024-01-15''
    \<and> source d1 = str_of ''https://www.google.com/basepages/producttype/taxonomy-with-ids.en-US.txt''
    \<and> description d1 = str_of ''Curated subset of Google Product Taxonomy for electronics recommerce''"
proof -
  from assms(2) obtain t1 where t1: "response e1 = Some t1"
    and d1: "d1 = make_subset_data (extract_electronics_categories (Some t1))"
    by (rule written_cases)
  from assms(3) obtain t2 where t2: "response e2 = Some t2"
    and d2: "d2 = make_subset_data (extract_electronics_categories (Some t2))"
    by (rule written_cases)
  have "t1 = t2" using assms(1) t1 t2 by simp
  then have eq: "d1 = d2" using d1 d2 by simp
  have fields: "lastUpdated d1 = str_of ''2024-01-15''
    \<and> source d1 = str_of ''https://www.google.com/basepages/producttype/taxonomy-with-ids.en-US.txt''
    \<and> description d1 = str_of ''Curated subset of Google Product Taxonomy for electronics recommerce''"
    unfolding d1 by (simp add: make_subset_data_def)
  have "file_text (output_file (main e1)) = Some (json_dump d1)"
    using assms(2) by (simp add: file_text_def)
  moreover have "file_text (output_file (main e2)) = Some (json_dump d2)"
    using assms(3) by (simp add: file_text_def)
  ultimately show ?thesis using eq fields by simp
qed

theorem output_determined_by_fetched_text_witness:
  "response \<lparr>response = Some (str_of ''Electronics''), write_ok = True, clock = 0\<rparr>
     = response \<lparr>response = Some (str_of ''Electronics''), write_ok = True, clock = 1\<rparr>
   \<and> output_file (main \<lparr>response = Some (str_of ''Electronics''), write_ok = True, clock = 0\<rparr>)
       = Written (make_subset_data (extract_electronics_categories (Some (str_of ''Electronics''))))
   \<and> output_file (main \<lparr>response = Some (str_of ''Electronics''), write_ok = True, clock = 1\<rparr>)
       = Written (make_subset_data (extract_electronics_categories (Some (str_of ''Electronics''))))
   \<and> file_text (output_file (main \<lparr>response = Some (str_of ''Electronics''), write_ok = True, clock = 0\<rparr>))
       = file_text (output_file (main \<lparr>response = Some (str_of ''Electronics''), write_ok = True, clock = 1\<rparr>))
   \<and> lastUpdated (make_subset_data (extract_electronics_categories (Some (str_of ''Electronics''))))
       = str_of ''2024-01-15''"
proof -
  let ?e1 = "\<lparr>response = Some (str_of ''Electronics''), write_ok = True, clock = 0\<rparr>"
  let ?e2 = "\<lparr>response = Some (str_of ''Electronics''), write_ok = True, clock = 1\<rparr>"
  have r: "response ?e1 = response ?e2" by simp
  have a: "output_file (main ?e1)
      = Written (make_subset_data (extract_electronics_categories (Some (str_of ''Electronics''))))"
    by (rule main_written) (simp_all add: str_Electronics_nonempty)
  have b: "output_file (main ?e2)
      = Written (make_subset_data (extract_electronics_categories (Some (str_of ''Electronics''))))"
    by (rule main_written) (simp_all add: str_Electronics_nonempty)
  show ?thesis using r a b output_determined_by_fetched_text [OF r a b] by blast
qed

text \<open>
  Claim C10. A fetch that succeeds with an empty body is handled by \<^verbatim>\<open>main\<close> as a
  failed fetch: the failure is reported and the run returns with the output file
  untouched, just as when the fetch raises (where \<^verbatim>\<open>fetch_taxonomy\<close> has printed its
  own error line before); no output padded from the fallback list is written.
\<close>

theorem empty_body_treated_as_failure:
  assumes "response e = Some []"
  shows "main e = \<lparr>stdout = [Fetching, FailedToFetch], output_file = Untouched\<rparr>
    \<and> output_file (main e) = output_file (main (e\<lparr>response := None\<rparr>))
    \<and> stdout (main (e\<lparr>response := None\<rparr>)) = [Fetching, ErrorFetching, FailedToFetch]
    \<and> output_file (main e)
        \<noteq> Written (make_subset_data (take 20 (sort (padded (filtered [])))))"
  using assms by (simp add: main_def fetch_taxonomy_def)

theorem empty_body_treated_as_failure_witness:
  "response \<lparr>response = Some [], write_ok = True, clock = 0\<rparr> = Some []
   \<and> main \<lparr>response = Some [], write_ok = True, clock = 0\<rparr>
       = \<lparr>stdout = [Fetching, FailedToFetch], output_file = Untouched\<rparr>"
proof -
  have h: "response \<lparr>response = Some [], write_ok = True, clock = 0\<rparr> = Some []" by simp
  show ?thesis using h empty_body_treated_as_failure [OF h] by blast
qed

text \<open>
  Claim C9. The eleven patterns together are one test of a prefix: some pattern matches
  a line exactly when the line starts with \<^verbatim>\<open>Electronics\<close>. The inner loop appends
  the line once in that case and not at all otherwise, so the filter keeps, in order,
  the stripped lines that are not empty, do not start with \<^verbatim>\<open>#\<close> and start with
  \<^verbatim>\<open>Electronics\<close>, one entry for each such line.
\<close>

theorem patterns_are_one_prefix_test:
  "length target_patterns = 11
   \<and> (list_ex (\<lambda>pattern. re_match pattern line) target_patterns
        \<longleftrightarrow> startswith line (str_of ''Electronics''))
   \<and> try_patterns target_patterns line acc
        = (if startswith line (str_of ''Electronics'') then acc @ [line] else acc)
   \<and> filter_loop ls acc
        = acc @ [l \<leftarrow> map strip ls.
                   l \<noteq> [] \<and> \<not> startswith l (str_of ''#'') \<and> startswith l (str_of ''Electronics'')]
   \<and> length (filtered content) \<le> length (split_nl (strip content))"
proof -
  have a: "length target_patterns = 11"
    by (simp add: target_patterns_def)
  have b: "try_patterns target_patterns line acc
        = (if startswith line (str_of ''Electronics'') then acc @ [line] else acc)"
    by (rule try_patterns_target)
  have c: "list_ex (\<lambda>pattern. re_match pattern line) target_patterns
        \<longleftrightarrow> startswith line (str_of ''Electronics'')"
    using try_patterns_target [of line "[]"] try_patterns_no_match [of target_patterns line "[]"]
    by (auto split: if_splits)
  have "[l \<leftarrow> map strip ls. startswith l (str_of ''Electronics'')]
      = [l \<leftarrow> map strip ls.
           l \<noteq> [] \<and> \<not> startswith l (str_of ''#'') \<and> startswith l (str_of ''Electronics'')]"
    using startswith_Electronics_kept by (intro filter_cong) auto
  then have d: "filter_loop ls acc
        = acc @ [l \<leftarrow> map strip ls.
                   l \<noteq> [] \<and> \<not> startswith l (str_of ''#'') \<and> startswith l (str_of ''Electronics'')]"
    by (simp add: filter_loop_eq)
  have e: "length (filtered content) \<le> length (split_nl (strip content))"
    using length_filter_le [of _ "map strip (split_nl (strip content))"]
    by (simp add: filtered_def filter_loop_eq)
  show ?thesis using a b c d e by blast
qed

end
